theory Spec2Isabelle
  imports Complex_Main "HOL-Library.Sublist"
begin

section \<open>Hybrid retrieval and reranking (backend/app/main.py)\<close>

text \<open>
  A shallow embedding of the retrieval path of the chat backend: vector search, BM25
  search, fusion with deduplication, local reranking and the collection of cited urls.

  Conventions of the model:
  \<^item> a Python \<open>str\<close> is a \<open>string\<close>; one \<open>char\<close> stands for one code point, so
    \<open>r["text"][:64]\<close> is \<open>take 64\<close>;
  \<^item> a Python \<open>int\<close> is an \<open>int\<close>;
  \<^item> a score is a \<open>real\<close>. The functions of main.py never compute with scores, they
    only carry and compare them, and finite floats are ordered as the reals they denote.
    NaN is outside the model;
  \<^item> an exception is a value \<open>Inl e\<close> of a sum type;
  \<^item> the embedding model, the vector store, the BM25 library, the cross-encoder and the
    chat-completion service are not code of this program: they are fields of an
    environment record, and every call to a remote or model collaborator is appended to
    a trace.
\<close>

subsection \<open>Python built-ins used by the code\<close>

text \<open>\<open>xs[:n]\<close>: a negative bound counts from the end of the list.\<close>

definition py_slice_to :: "int \<Rightarrow> 'a list \<Rightarrow> 'a list" where
  "py_slice_to n xs =
     (if 0 \<le> n then take (nat n) xs else take (length xs - nat (- n)) xs)"

text \<open>
  \<open>sorted(xs, key=f, reverse=True)\<close>: descending by key and stable, elements with equal
  keys keep the order they have in \<open>xs\<close>. \<open>sort_key\<close> is the stable insertion sort of
  the list library; sorting ascending by the negated key is sorting descending by the key.
\<close>

definition py_sorted_reverse :: "('a \<Rightarrow> real) \<Rightarrow> 'a list \<Rightarrow> 'a list" where
  "py_sorted_reverse f xs = sort_key (\<lambda>x. - f x) xs"

text \<open>Truth value of an optional string: \<open>None\<close> and \<open>""\<close> are false.\<close>

fun truthy :: "string option \<Rightarrow> bool" where
  "truthy None = False"
| "truthy (Some s) = (s \<noteq> [])"

text \<open>\<open>x or y\<close> on optional strings.\<close>

definition py_or :: "string option \<Rightarrow> string option \<Rightarrow> string option" where
  "py_or x y = (if truthy x then x else y)"

text \<open>
  \<open>s.split()\<close>: the maximal runs of non-whitespace characters, in order. The whitespace
  characters are those \<open>str.isspace\<close> accepts among the first 256 code points.
\<close>

definition py_isspace :: "char \<Rightarrow> bool" where
  "py_isspace c = ((of_char c :: nat) \<in> {9, 10, 11, 12, 13, 28, 29, 30, 31, 32, 133, 160})"

fun split_from :: "string \<Rightarrow> string \<Rightarrow> string list" where
  "split_from cur [] = (if cur = [] then [] else [cur])"
| "split_from cur (c # cs) =
     (if py_isspace c
      then (if cur = [] then split_from [] cs else cur # split_from [] cs)
      else split_from (cur @ [c]) cs)"

definition py_split :: "string \<Rightarrow> string list" where
  "py_split s = split_from [] s"

text \<open>
  The loop "remember the keys seen, keep an element only when its key is new":
  \<^verbatim>\<open>
    seen = set(); unique = []
    for r in combined:
        key = ...
        if key in seen: continue
        seen.add(key); unique.append(r)
  \<close>
  with the key computation as a parameter.
\<close>

fun dedup_loop :: "('a \<Rightarrow> 'k) \<Rightarrow> 'k set \<Rightarrow> 'a list \<Rightarrow> 'a list \<Rightarrow> 'a list" where
  "dedup_loop key seen unique [] = unique"
| "dedup_loop key seen unique (r # rs) =
     (if key r \<in> seen then dedup_loop key seen unique rs
      else dedup_loop key (insert (key r) seen) (unique @ [r]) rs)"

text \<open>
  \<open>list(dict.fromkeys(xs))\<close>: the keys of the dictionary in insertion order; setting a
  key that is already present leaves it where it is.
\<close>

fun fromkeys_from :: "'a list \<Rightarrow> 'a list \<Rightarrow> 'a list" where
  "fromkeys_from ks [] = ks"
| "fromkeys_from ks (x # xs) =
     (if x \<in> set ks then fromkeys_from ks xs else fromkeys_from (ks @ [x]) xs)"

definition dict_fromkeys :: "'a list \<Rightarrow> 'a list" where
  "dict_fromkeys xs = fromkeys_from [] xs"

text \<open>Position of the first element satisfying \<open>P\<close> (the length of the list if none does).\<close>

definition first_index :: "('a \<Rightarrow> bool) \<Rightarrow> 'a list \<Rightarrow> nat" where
  "first_index P xs = length (takeWhile (\<lambda>x. \<not> P x) xs)"

subsection \<open>Data\<close>

text \<open>
  A result dictionary \<open>{"text", "url", "title", "score", "source"}\<close>; the key
  \<open>"rerank_score"\<close> is absent until \<open>rerank_locally\<close> sets it.
\<close>

datatype source = Vector | Bm25

record candidate =
  c_text :: string
  c_url :: "string option"
  c_title :: "string option"
  c_score :: real
  c_source :: source
  c_rerank_score :: "real option"

text \<open>
  A hit of the vector store: \<open>h.payload\<close> (possibly \<open>None\<close>) and \<open>h.score\<close>. The
  payload values read by the code are the strings the indexer stored; a key that is
  missing or null reads as \<open>None\<close>.
\<close>

record hit =
  h_payload :: "(string \<rightharpoonup> string) option"
  h_score :: real

text \<open>A record of bm25\_corpus.jsonl: \<open>d["text"]\<close> and \<open>d["metadata"]\<close>.\<close>

record doc =
  d_text :: string
  d_metadata :: "string \<rightharpoonup> string"

datatype py_exception =
  EmbedModelFailure | VectorStoreFailure | RerankModelFailure | CompletionFailure | IndexError

datatype call =
  EncodeCall string
| QdrantSearchCall "real list" int real
| PredictCall "(string \<times> string) list"
| CompletionCall string

text \<open>
  The module-level state of main.py: the clients and models and the corpus loaded at
  import time. \<open>qdrant_search qv limit score_threshold\<close> is \<open>qdrant.search\<close> on the
  configured collection; \<open>bm25_get_scores tokenized q\<close> is
  \<open>BM25Okapi(tokenized).get_scores(q)\<close>.
\<close>

record env =
  embed_encode :: "string \<Rightarrow> py_exception + real list"
  qdrant_search :: "real list \<Rightarrow> int \<Rightarrow> real \<Rightarrow> py_exception + hit list"
  docs :: "doc list"
  bm25_get_scores :: "string list list \<Rightarrow> string list \<Rightarrow> real list"
  reranker_predict :: "(string \<times> string) list \<Rightarrow> py_exception + real list"
  chat_completion :: "string \<Rightarrow> py_exception + string"

text \<open>A computation that may raise and that extends the trace of collaborator calls.\<close>

type_synonym 'a io = "call list \<Rightarrow> (py_exception + 'a) \<times> call list"

definition return_io :: "'a \<Rightarrow> 'a io" where
  "return_io x tr = (Inr x, tr)"

definition call_io :: "call \<Rightarrow> py_exception + 'a \<Rightarrow> 'a io" where
  "call_io c r tr = (r, tr @ [c])"

definition lift_io :: "py_exception + 'a \<Rightarrow> 'a io" where
  "lift_io r tr = (r, tr)"

definition bind_io :: "'a io \<Rightarrow> ('a \<Rightarrow> 'b io) \<Rightarrow> 'b io" where
  "bind_io m f tr =
     (case m tr of (Inl e, tr') \<Rightarrow> (Inl e, tr') | (Inr x, tr') \<Rightarrow> f x tr')"

subsection \<open>Search functions\<close>

definition embed_query :: "env \<Rightarrow> string \<Rightarrow> (real list) io" where
  "embed_query e query = call_io (EncodeCall query) (embed_encode e query)"

definition hit_result :: "hit \<Rightarrow> candidate" where
  "hit_result h =
     (let payload = (case h_payload h of None \<Rightarrow> Map.empty | Some p \<Rightarrow> p)
      in \<lparr> c_text = (case payload ''text'' of None \<Rightarrow> [] | Some t \<Rightarrow> t),
           c_url = payload ''url'',
           c_title = payload ''title'',
           c_score = h_score h,
           c_source = Vector,
           c_rerank_score = None \<rparr>)"

definition vector_search :: "env \<Rightarrow> string \<Rightarrow> int \<Rightarrow> (candidate list) io" where
  "vector_search e query k =
     bind_io (embed_query e query) (\<lambda>qv.
     bind_io (call_io (QdrantSearchCall qv k 0.15) (qdrant_search e qv k 0.15)) (\<lambda>hits.
     return_io (map hit_result hits)))"

text \<open>
  The body of the result loop of \<open>bm25_search\<close> for one index; \<open>docs[i]\<close> raises
  IndexError when the library returned more scores than there are documents.
\<close>

definition bm25_result :: "doc list \<Rightarrow> real list \<Rightarrow> nat \<Rightarrow> py_exception + candidate" where
  "bm25_result ds scores i =
     (if i < length ds
      then (let d = ds ! i
            in Inr \<lparr> c_text = d_text d,
                     c_url = py_or (d_metadata d ''url'') (d_metadata d ''source_path''),
                     c_title = d_metadata d ''title'',
                     c_score = scores ! i,
                     c_source = Bm25,
                     c_rerank_score = None \<rparr>)
      else Inl IndexError)"

fun collect :: "('a \<Rightarrow> py_exception + 'b) \<Rightarrow> 'a list \<Rightarrow> py_exception + 'b list" where
  "collect f [] = Inr []"
| "collect f (x # xs) =
     (case f x of
        Inl e \<Rightarrow> Inl e
      | Inr y \<Rightarrow> (case collect f xs of Inl e \<Rightarrow> Inl e | Inr ys \<Rightarrow> Inr (y # ys)))"

definition bm25_scores :: "env \<Rightarrow> string \<Rightarrow> real list" where
  "bm25_scores e query =
     bm25_get_scores e (map (\<lambda>d. py_split (d_text d)) (docs e)) (py_split query)"

definition bm25_search :: "env \<Rightarrow> string \<Rightarrow> int \<Rightarrow> py_exception + candidate list" where
  "bm25_search e query k =
     (let scores = bm25_scores e query;
          top_idx = py_slice_to k (py_sorted_reverse (\<lambda>i. scores ! i) [0..<length scores])
      in collect (bm25_result (docs e) scores) top_idx)"

text \<open>The deduplication key \<open>(r["text"][:64], r.get("url"))\<close>.\<close>

definition result_key :: "candidate \<Rightarrow> string \<times> string option" where
  "result_key r = (take 64 (c_text r), c_url r)"

text \<open>
  \<open>hybrid_retrieve\<close> from \<open>combined = vec_results + bm25_results\<close> to its return: the
  fusion of two result lists.
\<close>

definition fuse :: "candidate list \<Rightarrow> candidate list \<Rightarrow> int \<Rightarrow> candidate list" where
  "fuse vec_results bm25_results k =
     (let combined = vec_results @ bm25_results;
          unique = dedup_loop result_key {} [] combined
      in py_slice_to (max (k * 2) 10) unique)"

definition hybrid_retrieve :: "env \<Rightarrow> string \<Rightarrow> int \<Rightarrow> (candidate list) io" where
  "hybrid_retrieve e query k =
     bind_io (vector_search e query k) (\<lambda>vec_results.
     bind_io (lift_io (bm25_search e query k)) (\<lambda>bm25_results.
     return_io (fuse vec_results bm25_results k)))"

subsection \<open>Local reranker\<close>

definition rerank_inputs :: "string \<Rightarrow> candidate list \<Rightarrow> (string \<times> string) list" where
  "rerank_inputs query docs_in = map (\<lambda>d. (query, c_text d)) docs_in"

text \<open>\<open>d["rerank_score"] = float(s)\<close> for a pair \<open>(d, s)\<close> of the ranked list.\<close>

definition set_rerank_score :: "candidate \<times> real \<Rightarrow> candidate" where
  "set_rerank_score p = (fst p)\<lparr> c_rerank_score := Some (snd p) \<rparr>"

text \<open>
  The early return on an empty list comes before the call of the model. \<open>zip\<close> stops at
  the shorter list, as Python's does. The dictionaries are updated in place; the lists
  this function receives from \<open>hybrid_retrieve\<close> hold a fresh dictionary per entry, so
  the update of one entry is not seen through another.
\<close>

definition rerank_locally :: "env \<Rightarrow> string \<Rightarrow> candidate list \<Rightarrow> int \<Rightarrow> (candidate list) io" where
  "rerank_locally e query docs_in top_n =
     (if docs_in = [] then return_io []
      else bind_io (call_io (PredictCall (rerank_inputs query docs_in))
                            (reranker_predict e (rerank_inputs query docs_in))) (\<lambda>scores.
           let ranked = py_sorted_reverse snd (zip docs_in scores)
           in return_io (map set_rerank_score (py_slice_to top_n ranked))))"

subsection \<open>Prompt and answer\<close>

definition newline :: char where
  "newline = CHR 0x0A"

text \<open>\<open>x or ""\<close> on an optional string.\<close>

definition or_empty :: "string option \<Rightarrow> string" where
  "or_empty x = (case x of None \<Rightarrow> [] | Some s \<Rightarrow> s)"

fun py_join :: "string \<Rightarrow> string list \<Rightarrow> string" where
  "py_join sep [] = []"
| "py_join sep [x] = x"
| "py_join sep (x # y # ys) = x @ sep @ py_join sep (y # ys)"

definition instructions :: string where
  "instructions =
     ''Answer the user based ONLY on the context. '' @
     ''Cite 1-3 sources using markdown links to their URLs. '' @
     ''If not found, say you cannot find it in the docs and suggest closest relevant links. '' @
     ''Keep the answer concise with bullet points and bold key terms.''"

definition context_entry :: "candidate \<Rightarrow> string" where
  "context_entry c =
     ''Title: '' @ or_empty (c_title c) @ [newline] @
     ''URL: '' @ or_empty (c_url c) @ [newline] @
     ''Snippet: '' @ c_text c"

definition build_prompt :: "candidate list \<Rightarrow> string \<Rightarrow> string" where
  "build_prompt contexts query =
     instructions @ [newline, newline] @ ''Context:'' @ [newline] @
     py_join [newline, newline] (map context_entry contexts) @
     [newline, newline] @ ''Question: '' @ query @ [newline] @ ''Answer:''"

definition generate_answer :: "env \<Rightarrow> string \<Rightarrow> candidate list \<Rightarrow> string io" where
  "generate_answer e query contexts =
     call_io (CompletionCall (build_prompt contexts query))
             (chat_completion e (build_prompt contexts query))"

subsection \<open>The endpoint\<close>

record chat_request =
  req_query :: string
  req_k :: int

record chat_response =
  resp_answer :: string
  resp_sources :: "string list"

text \<open>
  \<open>list(dict.fromkeys([c.get("url") for c in top_ctx if c.get("url")]))\<close>.
\<close>

definition collect_sources :: "candidate list \<Rightarrow> string list" where
  "collect_sources top_ctx = dict_fromkeys (map or_empty (filter truthy (map c_url top_ctx)))"

text \<open>The first three statements of \<open>chat\<close>: the ranked contexts of the request.\<close>

definition chat_top_ctx :: "env \<Rightarrow> chat_request \<Rightarrow> (candidate list) io" where
  "chat_top_ctx e req =
     bind_io (hybrid_retrieve e (req_query req) (req_k req)) (\<lambda>candidates.
     bind_io (rerank_locally e (req_query req) candidates 6) (\<lambda>reranked.
     return_io (py_slice_to 6 reranked)))"

definition chat :: "env \<Rightarrow> chat_request \<Rightarrow> chat_response io" where
  "chat e req =
     bind_io (chat_top_ctx e req) (\<lambda>top_ctx.
     bind_io (generate_answer e (req_query req) top_ctx) (\<lambda>answer.
     return_io \<lparr> resp_answer = answer, resp_sources = collect_sources top_ctx \<rparr>))"

subsection \<open>Notions used to state the properties\<close>




text \<open>
  The contract of the vector store for \<open>score_threshold\<close> under a similarity metric:
  it returns no hit that scores below the threshold it was given.
\<close>

definition store_honours_threshold :: "env \<Rightarrow> bool" where
  "store_honours_threshold e =
     (\<forall>qv limit thr hits. qdrant_search e qv limit thr = Inr hits \<longrightarrow>
        (\<forall>h \<in> set hits. thr \<le> h_score h))"

text \<open>
  The fallback the specification describes for a failing rerank model, in its words:
  the fused candidates ordered by their original source score, truncated to \<open>topN\<close>.
\<close>

definition spec_rerank_fallback :: "candidate list \<Rightarrow> int \<Rightarrow> candidate list" where
  "spec_rerank_fallback fused top_n = py_slice_to top_n (py_sorted_reverse c_score fused)"

subsection \<open>Example data\<close>

definition ex_result :: "string \<Rightarrow> string option \<Rightarrow> real \<Rightarrow> source \<Rightarrow> candidate" where
  "ex_result t u s src =
     \<lparr> c_text = t, c_url = u, c_title = None, c_score = s, c_source = src,
       c_rerank_score = None \<rparr>"

definition ex_hits :: "hit list" where
  "ex_hits =
     [\<lparr> h_payload = Some [''text'' \<mapsto> ''refund policy'', ''url'' \<mapsto> ''u1''], h_score = 0.9 \<rparr>,
      \<lparr> h_payload = None, h_score = 0.1 \<rparr>]"

definition ex_docs :: "doc list" where
  "ex_docs =
     [\<lparr> d_text = ''refund policy'', d_metadata = [''url'' \<mapsto> ''u1''] \<rparr>,
      \<lparr> d_text = ''shipping times'', d_metadata = [''source_path'' \<mapsto> ''p2''] \<rparr>]"

text \<open>
  A small environment: a store that filters by the threshold and cuts at the limit, a
  lexical scorer that counts the query tokens present in a document, and a rerank model
  that scores a pair by the length of its text.
\<close>

definition ex_env :: env where
  "ex_env =
     \<lparr> embed_encode = (\<lambda>q. Inr [1]),
       qdrant_search = (\<lambda>qv limit thr.
          Inr (take (nat limit) (filter (\<lambda>h. thr \<le> h_score h) ex_hits))),
       docs = ex_docs,
       bm25_get_scores = (\<lambda>toks q.
          map (\<lambda>d. real (length (filter (\<lambda>t. t \<in> set d) q))) toks),
       reranker_predict = (\<lambda>ps. Inr (map (\<lambda>p. real (length (snd p))) ps)),
       chat_completion = (\<lambda>p. Inr ''ok'') \<rparr>"

definition ex_env_rerank_down :: env where
  "ex_env_rerank_down = ex_env \<lparr> reranker_predict := (\<lambda>ps. Inl RerankModelFailure) \<rparr>"

definition ex_req :: chat_request where
  "ex_req = \<lparr> req_query = ''refund'', req_k = 2 \<rparr>"



text \<open>Two vector results and two lexical results; the first of each share their key.\<close>

definition ex_vec2 :: "candidate list" where
  "ex_vec2 =
     [ex_result ''refund policy'' (Some ''u1'') 0.9 Vector, ex_result ''b'' None 0.5 Vector]"

definition ex_lex2 :: "candidate list" where
  "ex_lex2 =
     [ex_result ''refund policy'' (Some ''u1'') 2 Bm25, ex_result ''c'' None 1 Bm25]"

text \<open>Four candidates that the example rerank model scores 2, 3, 2 and 4.\<close>

definition ex_docs_in :: "candidate list" where
  "ex_docs_in =
     [ex_result ''aa'' None 0.9 Vector, ex_result ''bbb'' None 0.5 Vector,
      ex_result ''cc'' None 2 Bm25, ex_result ''dddd'' None 1 Bm25]"

text \<open>What \<open>hybrid_retrieve\<close> returns for the example request, and the response to it.\<close>

definition ex_fused :: "candidate list" where
  "ex_fused =
     [ex_result ''refund policy'' (Some ''u1'') 0.9 Vector,
      ex_result ''shipping times'' (Some ''p2'') 0 Bm25]"

definition ex_resp :: chat_response where
  "ex_resp = \<lparr> resp_answer = ''ok'', resp_sources = [''p2'', ''u1''] \<rparr>"

section \<open>Properties of the deduplication loop\<close>

lemma dedup_loop_append:
  "dedup_loop key seen unique rs = unique @ dedup_loop key seen [] rs"
proof (induction rs arbitrary: seen unique)
  case Nil
  show ?case by simp
next
  case (Cons r rs)
  show ?case
  proof (cases "key r \<in> seen")
    case True
    then show ?thesis using Cons.IH [of seen unique] by simp
  next
    case False
    then show ?thesis
      using Cons.IH [of "insert (key r) seen" "unique @ [r]"]
        Cons.IH [of "insert (key r) seen" "[r]"]
      by simp
  qed
qed

lemma dedup_loop_Cons_seen:
  "key r \<in> seen \<Longrightarrow> dedup_loop key seen [] (r # rs) = dedup_loop key seen [] rs"
  by simp

lemma dedup_loop_Cons_new:
  "key r \<notin> seen \<Longrightarrow>
     dedup_loop key seen [] (r # rs) = r # dedup_loop key (insert (key r) seen) [] rs"
  using dedup_loop_append [of key "insert (key r) seen" "[r]" rs] by simp

declare dedup_loop.simps(2) [simp del]

lemma keys_dedup_loop:
  "key ` set (dedup_loop key seen [] rs) = key ` set rs - seen"
proof (induction rs arbitrary: seen)
  case Nil
  show ?case by simp
next
  case (Cons r rs)
  show ?case
  proof (cases "key r \<in> seen")
    case True
    then show ?thesis using Cons.IH [of seen] by (auto simp: dedup_loop_Cons_seen)
  next
    case False
    then show ?thesis
      using Cons.IH [of "insert (key r) seen"] by (auto simp: dedup_loop_Cons_new)
  qed
qed

lemma set_dedup_loop_subset: "set (dedup_loop key seen [] rs) \<subseteq> set rs"
proof (induction rs arbitrary: seen)
  case Nil
  show ?case by simp
next
  case (Cons r rs)
  show ?case
  proof (cases "key r \<in> seen")
    case True
    then show ?thesis using Cons.IH [of seen] by (auto simp: dedup_loop_Cons_seen)
  next
    case False
    then show ?thesis
      using Cons.IH [of "insert (key r) seen"] by (auto simp: dedup_loop_Cons_new)
  qed
qed

lemma distinct_keys_dedup_loop: "distinct (map key (dedup_loop key seen [] rs))"
proof (induction rs arbitrary: seen)
  case Nil
  show ?case by simp
next
  case (Cons r rs)
  show ?case
  proof (cases "key r \<in> seen")
    case True
    then show ?thesis using Cons.IH [of seen] by (simp add: dedup_loop_Cons_seen)
  next
    case False
    have "key r \<notin> key ` set (dedup_loop key (insert (key r) seen) [] rs)"
      by (simp add: keys_dedup_loop)
    with False show ?thesis
      using Cons.IH [of "insert (key r) seen"] by (simp add: dedup_loop_Cons_new)
  qed
qed

lemma dedup_loop_id:
  "distinct (map key rs) \<Longrightarrow> key ` set rs \<inter> seen = {} \<Longrightarrow> dedup_loop key seen [] rs = rs"
proof (induction rs arbitrary: seen)
  case Nil
  show ?case by simp
next
  case (Cons r rs)
  from Cons.prems have new: "key r \<notin> seen" by auto
  from Cons.prems have "distinct (map key rs)" "key ` set rs \<inter> insert (key r) seen = {}"
    by auto
  then have "dedup_loop key (insert (key r) seen) [] rs = rs" by (rule Cons.IH)
  with new show ?case by (simp add: dedup_loop_Cons_new)
qed

lemma dedup_loop_find:
  "c \<in> set (dedup_loop key seen [] rs) \<Longrightarrow> find (\<lambda>d. key d = key c) rs = Some c"
proof (induction rs arbitrary: seen)
  case Nil
  then show ?case by simp
next
  case (Cons r rs)
  show ?case
  proof (cases "key r \<in> seen")
    case True
    with Cons.prems have in_rest: "c \<in> set (dedup_loop key seen [] rs)"
      by (simp add: dedup_loop_Cons_seen)
    then have "key c \<in> key ` set rs - seen"
      using keys_dedup_loop [of key seen rs] by blast
    with True have "key r \<noteq> key c" by auto
    with Cons.IH [OF in_rest] show ?thesis by simp
  next
    case False
    with Cons.prems have "c = r \<or> c \<in> set (dedup_loop key (insert (key r) seen) [] rs)"
      by (simp add: dedup_loop_Cons_new)
    then show ?thesis
    proof
      assume "c = r"
      then show ?thesis by simp
    next
      assume in_rest: "c \<in> set (dedup_loop key (insert (key r) seen) [] rs)"
      then have "key c \<in> key ` set rs - insert (key r) seen"
        using keys_dedup_loop [of key "insert (key r) seen" rs] by blast
      then have "key r \<noteq> key c" by auto
      with Cons.IH [OF in_rest] show ?thesis by simp
    qed
  qed
qed

lemma first_index_Cons:
  "first_index P (x # xs) = (if P x then 0 else Suc (first_index P xs))"
  by (simp add: first_index_def)

lemma dedup_loop_filter_order:
  assumes closed: "\<And>c d. Q c \<Longrightarrow> key d = key c \<Longrightarrow> Q d"
  shows "sorted_wrt (<)
     (map (\<lambda>c. first_index (\<lambda>d. key d = key c) rs) (dedup_loop key seen [] (filter Q rs)))"
proof (induction rs arbitrary: seen)
  case Nil
  show ?case by simp
next
  case (Cons r rs)
  define fi where "fi = (\<lambda>xs c. first_index (\<lambda>d. key d = key c) xs)"
  have shift: "map (fi (r # rs)) (dedup_loop key S [] (filter Q rs))
      = map (Suc \<circ> fi rs) (dedup_loop key S [] (filter Q rs))"
    if "key r \<in> S \<or> \<not> Q r" for S
  proof (rule map_cong [OF refl])
    fix c assume c: "c \<in> set (dedup_loop key S [] (filter Q rs))"
    then have "key c \<in> key ` set (filter Q rs) - S"
      using keys_dedup_loop [of key S "filter Q rs"] by blast
    moreover from c have "Q c"
      using set_dedup_loop_subset [of key S "filter Q rs"] by auto
    ultimately have "key r \<noteq> key c"
      using that closed [of c r] by auto
    then show "fi (r # rs) c = (Suc \<circ> fi rs) c"
      by (simp add: fi_def first_index_Cons)
  qed
  have mono: "sorted_wrt (<) (map (Suc \<circ> fi rs) (dedup_loop key S [] (filter Q rs)))" for S
    using Cons.IH [of S] by (simp add: fi_def sorted_wrt_map)
  show ?case
  proof (cases "Q r \<and> key r \<notin> seen")
    case False
    then have skip: "dedup_loop key seen [] (filter Q (r # rs))
        = dedup_loop key seen [] (filter Q rs)"
      by (auto simp: dedup_loop_Cons_seen)
    from False have "key r \<in> seen \<or> \<not> Q r" by auto
    then have eq0: "map (fi (r # rs)) (dedup_loop key seen [] (filter Q rs))
        = map (Suc \<circ> fi rs) (dedup_loop key seen [] (filter Q rs))"
      by (rule shift)
    have "sorted_wrt (<) (map (fi (r # rs)) (dedup_loop key seen [] (filter Q rs)))"
      unfolding eq0 by (rule mono)
    then show ?thesis
      unfolding skip fi_def .
  next
    case True
    then have keep: "dedup_loop key seen [] (filter Q (r # rs))
        = r # dedup_loop key (insert (key r) seen) [] (filter Q rs)"
      by (simp add: dedup_loop_Cons_new)
    have eq: "map (fi (r # rs)) (dedup_loop key (insert (key r) seen) [] (filter Q rs))
        = map (Suc \<circ> fi rs) (dedup_loop key (insert (key r) seen) [] (filter Q rs))"
      by (rule shift) simp
    have zero: "fi (r # rs) r = 0"
      by (simp add: fi_def first_index_Cons)
    have "sorted_wrt (<)
        (0 # map (Suc \<circ> fi rs) (dedup_loop key (insert (key r) seen) [] (filter Q rs)))"
      using mono [of "insert (key r) seen"] by simp
    then have "sorted_wrt (<)
        (fi (r # rs) r # map (fi (r # rs)) (dedup_loop key (insert (key r) seen) [] (filter Q rs)))"
      unfolding eq zero .
    then show ?thesis
      unfolding keep fi_def by simp
  qed
qed

lemma dedup_loop_order:
  "sorted_wrt (<) (map (\<lambda>c. first_index (\<lambda>d. key d = key c) rs) (dedup_loop key seen [] rs))"
  using dedup_loop_filter_order [of "\<lambda>c. True" key rs seen] by simp

lemma py_slice_to_nonneg: "0 \<le> n \<Longrightarrow> py_slice_to n xs = take (nat n) xs"
  by (simp add: py_slice_to_def)

lemma fuse_take:
  "fuse v l k = take (nat (max (k * 2) 10)) (dedup_loop result_key {} [] (v @ l))"
  by (simp add: fuse_def py_slice_to_nonneg)

lemma distinct_keys_fuse: "distinct (map result_key (fuse v l k))"
  unfolding fuse_take take_map [symmetric]
  by (rule distinct_take) (rule distinct_keys_dedup_loop)


lemma fuse_first_occurrence:
  "c \<in> set (fuse v l k) \<Longrightarrow> find (\<lambda>d. result_key d = result_key c) (v @ l) = Some c"
  unfolding fuse_take by (rule dedup_loop_find) (erule in_set_takeD)










section \<open>Properties of the collected sources\<close>

lemma dedup_loop_map:
  "dedup_loop key seen [] (map f xs) = map f (dedup_loop (\<lambda>x. key (f x)) seen [] xs)"
proof (induction xs arbitrary: seen)
  case Nil
  show ?case by simp
next
  case (Cons x xs)
  show ?case
  proof (cases "key (f x) \<in> seen")
    case True
    then show ?thesis
      using Cons.IH [of seen] by (simp add: dedup_loop_Cons_seen)
  next
    case False
    then show ?thesis
      using Cons.IH [of "insert (key (f x)) seen"] by (simp add: dedup_loop_Cons_new)
  qed
qed

lemma fromkeys_from_dedup_loop:
  "fromkeys_from ks xs = ks @ dedup_loop (\<lambda>x. x) (set ks) [] xs"
proof (induction xs arbitrary: ks)
  case Nil
  show ?case by simp
next
  case (Cons x xs)
  show ?case
  proof (cases "x \<in> set ks")
    case True
    then show ?thesis
      using Cons.IH [of ks] by (simp add: dedup_loop_Cons_seen)
  next
    case False
    then show ?thesis
      using Cons.IH [of "ks @ [x]"] by (simp add: dedup_loop_Cons_new)
  qed
qed

lemma dict_fromkeys_dedup_loop: "dict_fromkeys xs = dedup_loop (\<lambda>x. x) {} [] xs"
  by (simp add: dict_fromkeys_def fromkeys_from_dedup_loop)

lemma url_key_iff:
  "truthy (c_url c) \<Longrightarrow> (c_url d = Some (or_empty (c_url c))) = (or_empty (c_url d) = or_empty (c_url c))"
  by (cases "c_url c"; cases "c_url d") (auto simp: or_empty_def)

lemma collect_sources_dedup:
  "collect_sources ctx =
     map (\<lambda>c. or_empty (c_url c))
       (dedup_loop (\<lambda>c. or_empty (c_url c)) {} [] (filter (\<lambda>c. truthy (c_url c)) ctx))"
proof -
  have "map or_empty (filter truthy (map c_url ctx))
      = map (\<lambda>c. or_empty (c_url c)) (filter (\<lambda>c. truthy (c_url c)) ctx)"
    by (simp add: filter_map comp_def)
  then show ?thesis
    by (simp add: collect_sources_def dict_fromkeys_dedup_loop dedup_loop_map)
qed

lemma distinct_collect_sources: "distinct (collect_sources ctx)"
  unfolding collect_sources_def dict_fromkeys_dedup_loop
  using distinct_keys_dedup_loop [of "\<lambda>x. x" "{}"] by simp

lemma set_collect_sources:
  "set (collect_sources ctx) = {u. u \<noteq> [] \<and> (\<exists>c \<in> set ctx. c_url c = Some u)}"
proof -
  have "set (collect_sources ctx) = set (map or_empty (filter truthy (map c_url ctx)))"
    unfolding collect_sources_def dict_fromkeys_dedup_loop
    using keys_dedup_loop [of "\<lambda>x. x" "{}" "map or_empty (filter truthy (map c_url ctx))"]
    by simp
  also have "\<dots> = {u. u \<noteq> [] \<and> (\<exists>c \<in> set ctx. c_url c = Some u)}"
  proof (intro set_eqI iffI)
    fix u assume "u \<in> set (map or_empty (filter truthy (map c_url ctx)))"
    then obtain c where c: "c \<in> set ctx" "truthy (c_url c)" "u = or_empty (c_url c)"
      by auto
    then show "u \<in> {u. u \<noteq> [] \<and> (\<exists>c \<in> set ctx. c_url c = Some u)}"
      by (cases "c_url c") (auto simp: or_empty_def)
  next
    fix u assume "u \<in> {u. u \<noteq> [] \<and> (\<exists>c \<in> set ctx. c_url c = Some u)}"
    then obtain c where c: "c \<in> set ctx" "c_url c = Some u" "u \<noteq> []" by auto
    then have "Some u \<in> set (filter truthy (map c_url ctx))" by force
    then have "or_empty (Some u) \<in> or_empty ` set (filter truthy (map c_url ctx))"
      by (rule imageI)
    then show "u \<in> set (map or_empty (filter truthy (map c_url ctx)))"
      by (simp add: or_empty_def)
  qed
  finally show ?thesis .
qed

lemma order_collect_sources:
  "sorted_wrt (<) (map (\<lambda>u. first_index (\<lambda>c. c_url c = Some u) ctx) (collect_sources ctx))"
proof -
  let ?h = "\<lambda>c. or_empty (c_url c)"
  let ?Q = "\<lambda>c. truthy (c_url c)"
  let ?D = "dedup_loop ?h {} [] (filter ?Q ctx)"
  have closed: "?Q d" if "?Q c" "?h d = ?h c" for c d
    using that by (cases "c_url c"; cases "c_url d") (auto simp: or_empty_def)
  have eq: "map (\<lambda>c. first_index (\<lambda>d. c_url d = Some (?h c)) ctx) ?D
      = map (\<lambda>c. first_index (\<lambda>d. ?h d = ?h c) ctx) ?D"
  proof (rule map_cong [OF refl])
    fix c assume "c \<in> set ?D"
    then have "?Q c"
      using set_dedup_loop_subset [of ?h "{}" "filter ?Q ctx"] by auto
    then show "first_index (\<lambda>d. c_url d = Some (?h c)) ctx = first_index (\<lambda>d. ?h d = ?h c) ctx"
      by (simp add: url_key_iff)
  qed
  have srt: "sorted_wrt (<) (map (\<lambda>c. first_index (\<lambda>d. ?h d = ?h c) ctx) ?D)"
    by (rule dedup_loop_filter_order) (rule closed)
  show ?thesis
    unfolding collect_sources_dedup map_map comp_def eq by (rule srt)
qed

lemma chat_result:
  assumes "fst (chat e req tr) = Inr resp"
  shows "\<exists>top_ctx. fst (chat_top_ctx e req tr) = Inr top_ctx \<and>
           resp_sources resp = collect_sources top_ctx"
  using assms
  by (auto simp: chat_def bind_io_def return_io_def split: prod.splits sum.splits)


section \<open>Properties of the searches and of the reranker\<close>

lemma rerank_locally_run:
  assumes "docs_in \<noteq> []"
    and "reranker_predict e (rerank_inputs query docs_in) = Inr scores"
  shows "rerank_locally e query docs_in top_n tr =
     (Inr (map set_rerank_score (py_slice_to top_n (py_sorted_reverse snd (zip docs_in scores)))),
      tr @ [PredictCall (rerank_inputs query docs_in)])"
  using assms by (simp add: rerank_locally_def bind_io_def call_io_def return_io_def)

lemma rerank_locally_raise:
  assumes "docs_in \<noteq> []"
    and "reranker_predict e (rerank_inputs query docs_in) = Inl err"
  shows "rerank_locally e query docs_in top_n tr =
     (Inl err, tr @ [PredictCall (rerank_inputs query docs_in)])"
  using assms by (simp add: rerank_locally_def bind_io_def call_io_def return_io_def)

lemma sorted_reverse_desc: "sorted_wrt (\<ge>) (map f (py_sorted_reverse f xs))"
proof -
  have "sorted (map (\<lambda>x. - f x) (py_sorted_reverse f xs))"
    unfolding py_sorted_reverse_def by (rule sorted_sort_key)
  then show ?thesis
    by (simp add: sorted_map sorted_wrt_map)
qed

lemma sorted_reverse_stable:
  "filter (\<lambda>x. f x = s) (py_sorted_reverse f xs) = filter (\<lambda>x. f x = s) xs"
  unfolding py_sorted_reverse_def
  using sort_key_stable [of "\<lambda>x. - f x" "- s" xs] by simp

lemma rerank_score_set: "c_rerank_score (set_rerank_score p) = Some (snd p)"
  by (simp add: set_rerank_score_def)

lemma vector_search_result:
  assumes "fst (vector_search e query k tr) = Inr results"
  shows "\<exists>qv hits. qdrant_search e qv k 0.15 = Inr hits \<and> results = map hit_result hits"
  using assms
  by (auto simp: vector_search_def embed_query_def bind_io_def call_io_def return_io_def
      split: sum.splits)

lemma collect_length:
  assumes "\<forall>x \<in> set xs. \<exists>y. f x = Inr y"
  shows "\<exists>ys. collect f xs = Inr ys \<and> length ys = length xs"
  using assms
proof (induction xs)
  case Nil
  show ?case by simp
next
  case (Cons x xs)
  then obtain y ys where "f x = Inr y" "collect f xs = Inr ys" "length ys = length xs"
    by auto
  then show ?case by simp
qed

lemma chat_top_ctx_raise:
  assumes "fst (hybrid_retrieve e (req_query req) (req_k req) tr) = Inr cands"
    and "cands \<noteq> []"
    and "reranker_predict e (rerank_inputs (req_query req) cands) = Inl err"
  shows "chat_top_ctx e req tr =
     (Inl err, snd (hybrid_retrieve e (req_query req) (req_k req) tr)
               @ [PredictCall (rerank_inputs (req_query req) cands)])"
proof -
  obtain tr1 where h: "hybrid_retrieve e (req_query req) (req_k req) tr = (Inr cands, tr1)"
    using assms(1) by (cases "hybrid_retrieve e (req_query req) (req_k req) tr") simp
  show ?thesis
    using rerank_locally_raise [OF assms(2) assms(3), of 6 tr1]
    by (simp add: chat_top_ctx_def bind_io_def h)
qed

section \<open>Runs on the example data\<close>

lemma fuse_ex2: "fuse ex_vec2 ex_lex2 1 = ex_vec2 @ [ex_lex2 ! 1]"
  by (simp add: fuse_def py_slice_to_def ex_vec2_def ex_lex2_def ex_result_def
      result_key_def dedup_loop.simps)

lemma hybrid_retrieve_ex:
  "fst (hybrid_retrieve ex_env ''refund'' 2 []) = Inr ex_fused"
  by (simp add: hybrid_retrieve_def vector_search_def embed_query_def
      bm25_search_def bm25_scores_def bm25_result_def
      fuse_def result_key_def hit_result_def py_or_def
      py_split_def py_isspace_def py_slice_to_def py_sorted_reverse_def
      bind_io_def call_io_def return_io_def lift_io_def
      ex_env_def ex_docs_def ex_hits_def ex_fused_def ex_result_def dedup_loop.simps)

lemma hybrid_retrieve_ex_rerank_down:
  "fst (hybrid_retrieve ex_env_rerank_down ''refund'' 2 []) = Inr ex_fused"
  by (simp add: hybrid_retrieve_def vector_search_def embed_query_def
      bm25_search_def bm25_scores_def bm25_result_def
      fuse_def result_key_def hit_result_def py_or_def
      py_split_def py_isspace_def py_slice_to_def py_sorted_reverse_def
      bind_io_def call_io_def return_io_def lift_io_def ex_env_rerank_down_def
      ex_env_def ex_docs_def ex_hits_def ex_fused_def ex_result_def dedup_loop.simps)

lemma chat_ex: "fst (chat ex_env ex_req []) = Inr ex_resp"
  by (simp add: chat_def chat_top_ctx_def hybrid_retrieve_def vector_search_def embed_query_def
      bm25_search_def bm25_scores_def bm25_result_def rerank_locally_def rerank_inputs_def
      generate_answer_def collect_sources_def dict_fromkeys_def set_rerank_score_def
      fuse_def result_key_def hit_result_def py_or_def or_empty_def
      py_split_def py_isspace_def py_slice_to_def py_sorted_reverse_def
      bind_io_def call_io_def return_io_def lift_io_def
      ex_env_def ex_docs_def ex_hits_def ex_req_def ex_resp_def dedup_loop.simps)

section \<open>Fusion\<close>

text \<open>
  C9. Fusing the output of a fusion once more (with no second list and the same \<open>k\<close>)
  returns that output unchanged, for all result lists and every \<open>k\<close>.
\<close>

theorem fuse_idempotent: "fuse (fuse v l k) [] k = fuse v l k"
proof -
  have "dedup_loop result_key {} [] (fuse v l k) = fuse v l k"
    by (rule dedup_loop_id) (simp_all add: distinct_keys_fuse)
  then show ?thesis
    by (simp add: fuse_take [of "fuse v l k" "[]" k]) (simp add: fuse_take)
qed

text \<open>
  C4. For all result lists and every \<open>k\<close> (in particular every \<open>k \<ge> 1\<close>), the fused
  list has at most \<open>max(2k, 10)\<close> entries; every entry is the first element of the
  concatenation "vector results, then lexical results" that carries its key, and the
  positions of these first occurrences increase along the fused list.
\<close>

theorem fuse_bound_order:
  "length (fuse v l k) \<le> nat (max (2 * k) 10) \<and>
   sorted_wrt (<)
     (map (\<lambda>c. first_index (\<lambda>d. result_key d = result_key c) (v @ l)) (fuse v l k)) \<and>
   (\<forall>c \<in> set (fuse v l k). find (\<lambda>d. result_key d = result_key c) (v @ l) = Some c)"
proof (intro conjI ballI)
  show "length (fuse v l k) \<le> nat (max (2 * k) 10)"
    by (simp add: fuse_take mult.commute)
next
  have "sorted_wrt (<)
     (take (nat (max (k * 2) 10))
        (map (\<lambda>c. first_index (\<lambda>d. result_key d = result_key c) (v @ l))
           (dedup_loop result_key {} [] (v @ l))))"
    by (rule sorted_wrt_take) (rule dedup_loop_order)
  then show "sorted_wrt (<)
     (map (\<lambda>c. first_index (\<lambda>d. result_key d = result_key c) (v @ l)) (fuse v l k))"
    by (simp add: fuse_take take_map)
next
  fix c assume "c \<in> set (fuse v l k)"
  then show "find (\<lambda>d. result_key d = result_key c) (v @ l) = Some c"
    by (rule fuse_first_occurrence)
qed

theorem fuse_bound_order_witness:
  "ex_vec2 ! 0 \<in> set (fuse ex_vec2 ex_lex2 1) \<and>
   length (fuse ex_vec2 ex_lex2 1) \<le> 10 \<and>
   find (\<lambda>d. result_key d = result_key (ex_vec2 ! 0)) (ex_vec2 @ ex_lex2) = Some (ex_vec2 ! 0)"
proof -
  have mem: "ex_vec2 ! 0 \<in> set (fuse ex_vec2 ex_lex2 1)"
    by (simp add: fuse_ex2) (simp add: ex_vec2_def)
  with fuse_bound_order [of ex_vec2 ex_lex2 1] show ?thesis by simp
qed



section \<open>Cited sources\<close>

text \<open>
  C8. When \<open>chat\<close> returns a response, its sources are the distinct non-empty urls of
  the ranked contexts of the request: each such url occurs exactly once, and the urls
  are listed in the order of their first occurrence among the ranked contexts.
\<close>

theorem chat_sources:
  assumes "fst (chat e req tr) = Inr resp"
  shows "\<exists>top_ctx. fst (chat_top_ctx e req tr) = Inr top_ctx \<and>
           distinct (resp_sources resp) \<and>
           set (resp_sources resp) = {u. u \<noteq> [] \<and> (\<exists>c \<in> set top_ctx. c_url c = Some u)} \<and>
           sorted_wrt (<)
             (map (\<lambda>u. first_index (\<lambda>c. c_url c = Some u) top_ctx) (resp_sources resp))"
proof -
  from chat_result [OF assms] obtain top_ctx where
    ctx: "fst (chat_top_ctx e req tr) = Inr top_ctx"
    and src: "resp_sources resp = collect_sources top_ctx"
    by blast
  show ?thesis
    unfolding src
    using ctx distinct_collect_sources set_collect_sources order_collect_sources
    by blast
qed

theorem chat_sources_witness:
  "fst (chat ex_env ex_req []) = Inr ex_resp \<and>
   resp_sources ex_resp = [''p2'', ''u1''] \<and>
   (\<exists>top_ctx. fst (chat_top_ctx ex_env ex_req []) = Inr top_ctx \<and>
      distinct (resp_sources ex_resp) \<and>
      set (resp_sources ex_resp) = {u. u \<noteq> [] \<and> (\<exists>c \<in> set top_ctx. c_url c = Some u)} \<and>
      sorted_wrt (<)
        (map (\<lambda>u. first_index (\<lambda>c. c_url c = Some u) top_ctx) (resp_sources ex_resp)))"
proof -
  have run: "fst (chat ex_env ex_req []) = Inr ex_resp"
    by (rule chat_ex)
  have src: "resp_sources ex_resp = [''p2'', ''u1'']"
    by (simp add: ex_resp_def)
  from run src chat_sources [OF run] show ?thesis by blast
qed

section \<open>Reranking\<close>

text \<open>
  C5. For every query, every non-empty candidate list and every \<open>top_n \<ge> 0\<close>, when the
  model returns scores, \<open>rerank_locally\<close> returns a list of at most \<open>top_n\<close> entries whose
  rerank scores are in descending order, and among entries of equal rerank score the
  input order is kept: the returned entries with a given score are the first input
  candidates that received that score, in input order.
\<close>

theorem rerank_locally_sorted:
  assumes "docs_in \<noteq> []"
    and "0 \<le> top_n"
    and "reranker_predict e (rerank_inputs query docs_in) = Inr scores"
  shows "\<exists>out ss.
     rerank_locally e query docs_in top_n tr =
       (Inr out, tr @ [PredictCall (rerank_inputs query docs_in)]) \<and>
     length out \<le> nat top_n \<and>
     map c_rerank_score out = map Some ss \<and>
     sorted_wrt (\<ge>) ss \<and>
     (\<forall>s. prefix (filter (\<lambda>c. c_rerank_score c = Some s) out)
            (map set_rerank_score (filter (\<lambda>p. snd p = s) (zip docs_in scores))))"
proof -
  define ranked where "ranked = py_sorted_reverse snd (zip docs_in scores)"
  define out where "out = map set_rerank_score (take (nat top_n) ranked)"
  define ss where "ss = map snd (take (nat top_n) ranked)"
  have run: "rerank_locally e query docs_in top_n tr =
      (Inr out, tr @ [PredictCall (rerank_inputs query docs_in)])"
    using rerank_locally_run [OF assms(1) assms(3)] assms(2)
    by (simp add: out_def ranked_def py_slice_to_nonneg)
  have len: "length out \<le> nat top_n"
    by (simp add: out_def)
  have scores: "map c_rerank_score out = map Some ss"
    by (simp add: out_def ss_def rerank_score_set comp_def)
  have "sorted_wrt (\<ge>) (take (nat top_n) (map snd ranked))"
    unfolding ranked_def by (rule sorted_wrt_take) (rule sorted_reverse_desc)
  then have desc: "sorted_wrt (\<ge>) ss"
    by (simp add: ss_def take_map)
  have stable: "prefix (filter (\<lambda>c. c_rerank_score c = Some s) out)
      (map set_rerank_score (filter (\<lambda>p. snd p = s) (zip docs_in scores)))" for s
  proof -
    have "filter (\<lambda>c. c_rerank_score c = Some s) out
        = map set_rerank_score (filter (\<lambda>p. snd p = s) (take (nat top_n) ranked))"
      by (simp add: out_def filter_map comp_def rerank_score_set)
    moreover have "prefix (filter (\<lambda>p. snd p = s) (take (nat top_n) ranked))
        (filter (\<lambda>p. snd p = s) ranked)"
      by (rule filter_mono_prefix) (rule take_is_prefix)
    moreover have "filter (\<lambda>p. snd p = s) ranked = filter (\<lambda>p. snd p = s) (zip docs_in scores)"
      unfolding ranked_def by (rule sorted_reverse_stable)
    ultimately show ?thesis
      by (simp add: map_mono_prefix)
  qed
  from run len scores desc stable show ?thesis by blast
qed

theorem rerank_locally_sorted_witness:
  "ex_docs_in \<noteq> [] \<and> (0::int) \<le> 3 \<and>
   reranker_predict ex_env (rerank_inputs ''q'' ex_docs_in) = Inr [2, 3, 2, 4] \<and>
   fst (rerank_locally ex_env ''q'' ex_docs_in 3 []) =
     Inr (map set_rerank_score [(ex_docs_in ! 3, 4), (ex_docs_in ! 1, 3), (ex_docs_in ! 0, 2)]) \<and>
   (\<exists>out ss.
     rerank_locally ex_env ''q'' ex_docs_in 3 [] =
       (Inr out, [] @ [PredictCall (rerank_inputs ''q'' ex_docs_in)]) \<and>
     length out \<le> nat 3 \<and>
     map c_rerank_score out = map Some ss \<and>
     sorted_wrt (\<ge>) ss \<and>
     (\<forall>s. prefix (filter (\<lambda>c. c_rerank_score c = Some s) out)
            (map set_rerank_score
               (filter (\<lambda>p. snd p = s) (zip ex_docs_in [2, 3, 2, 4])))))"
proof -
  have h1: "ex_docs_in \<noteq> []"
    by (simp add: ex_docs_in_def)
  have h2: "(0::int) \<le> 3"
    by simp
  have h3: "reranker_predict ex_env (rerank_inputs ''q'' ex_docs_in) = Inr [2, 3, 2, 4]"
    by (simp add: ex_env_def rerank_inputs_def ex_docs_in_def ex_result_def)
  have val: "fst (rerank_locally ex_env ''q'' ex_docs_in 3 []) =
      Inr (map set_rerank_score [(ex_docs_in ! 3, 4), (ex_docs_in ! 1, 3), (ex_docs_in ! 0, 2)])"
    unfolding rerank_locally_run [OF h1 h3]
    by (simp add: py_slice_to_def py_sorted_reverse_def ex_docs_in_def)
  from h1 h2 h3 val rerank_locally_sorted [OF h1 h2 h3, of "[]"] show ?thesis
    by blast
qed

text \<open>
  C7. For every query and every \<open>top_n\<close>, \<open>rerank_locally\<close> on the empty candidate list
  returns the empty list and leaves the trace of collaborator calls as it was: the
  scoring model is not invoked.
\<close>

theorem rerank_locally_empty: "rerank_locally e query [] top_n tr = (Inr [], tr)"
  by (simp add: rerank_locally_def return_io_def)

text \<open>
  C2, as amended. When the fused list is non-empty and the batched scoring call raises,
  the error propagates: the ranked contexts and the whole request fail with the model's
  error, and the last collaborator call is the failed scoring call, so no answer is
  generated.
\<close>

theorem rerank_failure_propagates:
  assumes "fst (hybrid_retrieve e (req_query req) (req_k req) tr) = Inr cands"
    and "cands \<noteq> []"
    and "reranker_predict e (rerank_inputs (req_query req) cands) = Inl err"
  shows "fst (chat_top_ctx e req tr) = Inl err \<and>
         chat e req tr =
           (Inl err, snd (hybrid_retrieve e (req_query req) (req_k req) tr)
                     @ [PredictCall (rerank_inputs (req_query req) cands)])"
  using chat_top_ctx_raise [OF assms]
  by (simp add: chat_def bind_io_def)

theorem rerank_failure_propagates_witness:
  "fst (hybrid_retrieve ex_env_rerank_down (req_query ex_req) (req_k ex_req) []) = Inr ex_fused \<and>
   ex_fused \<noteq> [] \<and>
   reranker_predict ex_env_rerank_down (rerank_inputs (req_query ex_req) ex_fused)
     = Inl RerankModelFailure \<and>
   fst (chat_top_ctx ex_env_rerank_down ex_req []) = Inl RerankModelFailure \<and>
   chat ex_env_rerank_down ex_req [] =
     (Inl RerankModelFailure,
      snd (hybrid_retrieve ex_env_rerank_down (req_query ex_req) (req_k ex_req) [])
        @ [PredictCall (rerank_inputs (req_query ex_req) ex_fused)])"
proof -
  have h1: "fst (hybrid_retrieve ex_env_rerank_down (req_query ex_req) (req_k ex_req) [])
      = Inr ex_fused"
    using hybrid_retrieve_ex_rerank_down by (simp add: ex_req_def)
  have h2: "ex_fused \<noteq> []"
    by (simp add: ex_fused_def)
  have h3: "reranker_predict ex_env_rerank_down (rerank_inputs (req_query ex_req) ex_fused)
      = Inl RerankModelFailure"
    by (simp add: ex_env_rerank_down_def)
  from h1 h2 h3 rerank_failure_propagates [OF h1 h2 h3] show ?thesis
    by blast
qed

text \<open>
  C2, as stated, fails: on the example request with a rerank model that raises, the
  fused list is non-empty, yet the ranked contexts are not the fallback list of the
  specification, and the request fails with the model's error.
\<close>

theorem rerank_fallback_counterexample:
  "fst (hybrid_retrieve ex_env_rerank_down (req_query ex_req) (req_k ex_req) []) = Inr ex_fused \<and>
   fst (chat_top_ctx ex_env_rerank_down ex_req []) \<noteq> Inr (spec_rerank_fallback ex_fused 6) \<and>
   fst (chat ex_env_rerank_down ex_req []) = Inl RerankModelFailure"
proof -
  have h1: "fst (hybrid_retrieve ex_env_rerank_down (req_query ex_req) (req_k ex_req) [])
      = Inr ex_fused"
    using hybrid_retrieve_ex_rerank_down by (simp add: ex_req_def)
  have h2: "ex_fused \<noteq> []"
    by (simp add: ex_fused_def)
  have h3: "reranker_predict ex_env_rerank_down (rerank_inputs (req_query ex_req) ex_fused)
      = Inl RerankModelFailure"
    by (simp add: ex_env_rerank_down_def)
  have raise: "chat_top_ctx ex_env_rerank_down ex_req [] =
      (Inl RerankModelFailure,
       snd (hybrid_retrieve ex_env_rerank_down (req_query ex_req) (req_k ex_req) [])
         @ [PredictCall (rerank_inputs (req_query ex_req) ex_fused)])"
    by (rule chat_top_ctx_raise [OF h1 h2 h3])
  then have "fst (chat ex_env_rerank_down ex_req []) = Inl RerankModelFailure"
    by (simp add: chat_def bind_io_def)
  with h1 raise show ?thesis by simp
qed

section \<open>Searches\<close>

text \<open>
  C6. When the vector store honours the score threshold it is given, every result of
  \<open>vector_search\<close> has a score of at least 0.15, for every query and every \<open>k\<close>: no
  candidate scoring below 0.15 is in the result.
\<close>

theorem vector_search_threshold:
  assumes "store_honours_threshold e"
    and "fst (vector_search e query k tr) = Inr results"
  shows "\<forall>r \<in> set results. 0.15 \<le> c_score r"
proof
  fix r assume r: "r \<in> set results"
  from vector_search_result [OF assms(2)] obtain qv hits where
    hits: "qdrant_search e qv k 0.15 = Inr hits" and res: "results = map hit_result hits"
    by blast
  from r res obtain h where h: "h \<in> set hits" "r = hit_result h" by auto
  from assms(1) hits h(1) have "0.15 \<le> h_score h"
    unfolding store_honours_threshold_def by blast
  with h(2) show "0.15 \<le> c_score r"
    by (simp add: hit_result_def Let_def)
qed

theorem vector_search_threshold_witness:
  "store_honours_threshold ex_env \<and>
   fst (vector_search ex_env ''refund'' 2 []) = Inr [ex_vec2 ! 0] \<and>
   0.15 \<le> c_score (ex_vec2 ! 0)"
proof -
  have h1: "store_honours_threshold ex_env"
    by (auto simp: store_honours_threshold_def ex_env_def dest: in_set_takeD)
  have h2: "fst (vector_search ex_env ''refund'' 2 []) = Inr [ex_vec2 ! 0]"
    by (simp add: vector_search_def embed_query_def hit_result_def
        bind_io_def call_io_def return_io_def
        ex_env_def ex_hits_def ex_vec2_def ex_result_def)
  from h1 h2 vector_search_threshold [OF h1 h2] show ?thesis by simp
qed

text \<open>
  C10. For every query string and every \<open>k \<ge> 0\<close>, when the BM25 library returns one
  score per document, \<open>bm25_search\<close> returns exactly \<open>min(k, corpus size)\<close> results: no
  document is left out for its score, a score of zero included.
\<close>

theorem bm25_search_length:
  assumes "0 \<le> k"
    and "length (bm25_scores e query) = length (docs e)"
  shows "\<exists>results. bm25_search e query k = Inr results \<and>
           length results = min (nat k) (length (docs e))"
proof -
  define scores where "scores = bm25_scores e query"
  define top_idx where
    "top_idx = take (nat k) (py_sorted_reverse (\<lambda>i. scores ! i) [0..<length scores])"
  have search: "bm25_search e query k = collect (bm25_result (docs e) scores) top_idx"
    using assms(1)
    by (simp add: bm25_search_def Let_def scores_def top_idx_def py_slice_to_nonneg)
  have "set top_idx \<subseteq> {0..<length scores}"
    using set_take_subset [of "nat k" "py_sorted_reverse (\<lambda>i. scores ! i) [0..<length scores]"]
    by (simp add: top_idx_def py_sorted_reverse_def)
  with assms(2) have "\<forall>i \<in> set top_idx. \<exists>y. bm25_result (docs e) scores i = Inr y"
    by (auto simp: bm25_result_def Let_def scores_def)
  from collect_length [OF this] obtain results where
    res: "collect (bm25_result (docs e) scores) top_idx = Inr results"
      "length results = length top_idx"
    by blast
  have "length top_idx = min (nat k) (length (docs e))"
    using assms(2) by (simp add: top_idx_def py_sorted_reverse_def scores_def min.commute)
  with search res show ?thesis by simp
qed

theorem bm25_search_length_witness:
  "(0::int) \<le> 5 \<and>
   length (bm25_scores ex_env ''   '') = length (docs ex_env) \<and>
   py_split ''   '' = [] \<and>
   bm25_scores ex_env ''   '' = [0, 0] \<and>
   (\<exists>results. bm25_search ex_env ''   '' 5 = Inr results \<and>
      length results = min (nat 5) (length (docs ex_env)))"
proof -
  have h1: "(0::int) \<le> 5"
    by simp
  have toks: "py_split ''   '' = []"
    by (simp add: py_split_def py_isspace_def)
  have sc: "bm25_scores ex_env ''   '' = [0, 0]"
    by (simp add: bm25_scores_def toks ex_env_def ex_docs_def)
  have h2: "length (bm25_scores ex_env ''   '') = length (docs ex_env)"
    by (simp add: sc) (simp add: ex_env_def ex_docs_def)
  from h1 h2 toks sc bm25_search_length [OF h1 h2] show ?thesis
    by blast
qed

end
